theory Spec2Isabelle
  imports Main
begin

section \<open>Colour table (led\_controller.py, class PadColor)\<close>

text \<open>
  The enumeration \<open>PadColor\<close> with its wire velocities (\<open>color.value\<close>) and the
  dictionary \<open>color_map\<close> of \<open>PadColor.get_hex_color\<close>, kept in the source's order.
\<close>

datatype PadColor =
    OFF | DIM | GRAY | WHITE
  | LIGHT_RED | RED | DARK_RED | VERY_DARK_RED
  | LIGHT_ORANGE | ORANGE | DARK_ORANGE | BROWN
  | LIGHT_YELLOW | YELLOW | DARK_YELLOW | VERY_DARK_YELLOW
  | LIGHT_LIME | LIME | DARK_LIME | VERY_DARK_LIME
  | LIGHT_GREEN | GREEN | DARK_GREEN | VERY_DARK_GREEN
  | LIGHT_BLUE | BLUE | DARK_BLUE | VERY_DARK_BLUE

fun pad_value :: "PadColor \<Rightarrow> int" where
  "pad_value OFF = 0"
| "pad_value DIM = 1"
| "pad_value GRAY = 2"
| "pad_value WHITE = 3"
| "pad_value LIGHT_RED = 4"
| "pad_value RED = 5"
| "pad_value DARK_RED = 6"
| "pad_value VERY_DARK_RED = 7"
| "pad_value LIGHT_ORANGE = 8"
| "pad_value ORANGE = 9"
| "pad_value DARK_ORANGE = 10"
| "pad_value BROWN = 11"
| "pad_value LIGHT_YELLOW = 12"
| "pad_value YELLOW = 13"
| "pad_value DARK_YELLOW = 14"
| "pad_value VERY_DARK_YELLOW = 15"
| "pad_value LIGHT_LIME = 16"
| "pad_value LIME = 17"
| "pad_value DARK_LIME = 18"
| "pad_value VERY_DARK_LIME = 19"
| "pad_value LIGHT_GREEN = 20"
| "pad_value GREEN = 21"
| "pad_value DARK_GREEN = 22"
| "pad_value VERY_DARK_GREEN = 23"
| "pad_value LIGHT_BLUE = 44"
| "pad_value BLUE = 45"
| "pad_value DARK_BLUE = 46"
| "pad_value VERY_DARK_BLUE = 47"


definition color_map :: "(int \<times> string) list" where
  "color_map =
    [(0, ''#000000''), (1, ''#1E1E1E''), (2, ''#7F7F7F''), (3, ''#FFFFFF''),
     (4, ''#FF4C4C''), (5, ''#FF0000''), (6, ''#590000''), (7, ''#190000''),
     (8, ''#FFBD6C''), (9, ''#FF5400''), (10, ''#591D00''), (11, ''#271B00''),
     (12, ''#FFFF4C''), (13, ''#FFFF00''), (14, ''#595900''), (15, ''#191900''),
     (16, ''#88FF4C''), (17, ''#54FF00''), (18, ''#1D5900''), (19, ''#142B00''),
     (20, ''#4CFF4C''), (21, ''#00FF00''), (22, ''#005900''), (23, ''#001900''),
     (44, ''#4C4CFF''), (45, ''#0000FF''), (46, ''#000059''), (47, ''#000019'')]"

text \<open>\<open>color_map.get(color_value, "#000000")\<close>: a lookup with a default.\<close>

definition get_hex_color :: "int \<Rightarrow> string" where
  "get_hex_color color_value =
     (case map_of color_map color_value of
        Some h \<Rightarrow> h
      | None \<Rightarrow> ''#000000'')"

section \<open>Grid coordinates (LedController.\_get\_note, \_get\_row\_col)\<close>

text \<open>
  Python's \<open>//\<close> and \<open>%\<close> round towards minus infinity, as \<open>div\<close> and \<open>mod\<close> on
  \<open>int\<close> do.
\<close>

definition get_note :: "int \<Rightarrow> int \<Rightarrow> int" where
  "get_note row col = row * 8 + col"

definition get_row_col :: "int \<Rightarrow> int \<times> int" where
  "get_row_col n = (let col = n mod 8; row = n div 8 in (row, col))"

section \<open>Controller (led\_controller.py, class LedController)\<close>

datatype ButtonBehavior = SOLID | BLINK | PULSE

datatype ButtonType =
    TRACK_1 | TRACK_2 | TRACK_3 | TRACK_4 | TRACK_5 | TRACK_6 | TRACK_7 | TRACK_8
  | SCENE_1 | SCENE_2 | SCENE_3 | SCENE_4 | SCENE_5 | SCENE_6 | SCENE_7 | SCENE_8

fun button_value :: "ButtonType \<Rightarrow> int" where
  "button_value TRACK_1 = 0x64"
| "button_value TRACK_2 = 0x65"
| "button_value TRACK_3 = 0x66"
| "button_value TRACK_4 = 0x67"
| "button_value TRACK_5 = 0x68"
| "button_value TRACK_6 = 0x69"
| "button_value TRACK_7 = 0x6A"
| "button_value TRACK_8 = 0x6B"
| "button_value SCENE_1 = 0x70"
| "button_value SCENE_2 = 0x71"
| "button_value SCENE_3 = 0x72"
| "button_value SCENE_4 = 0x73"
| "button_value SCENE_5 = 0x74"
| "button_value SCENE_6 = 0x75"
| "button_value SCENE_7 = 0x76"
| "button_value SCENE_8 = 0x77"

text \<open>\<open>for button in ButtonType\<close> visits the members in declaration order.\<close>

definition all_buttons :: "ButtonType list" where
  "all_buttons =
    [TRACK_1, TRACK_2, TRACK_3, TRACK_4, TRACK_5, TRACK_6, TRACK_7, TRACK_8,
     SCENE_1, SCENE_2, SCENE_3, SCENE_4, SCENE_5, SCENE_6, SCENE_7, SCENE_8]"

text \<open>
  The dataclass \<open>LedState\<close>: a colour, and two fields that always take their defaults
  where the controller builds an entry (\<open>LedState(color=color)\<close>). It has no channel
  field.
\<close>

record LedState =
  color :: PadColor
  behavior :: ButtonBehavior
  is_on :: bool

definition new_LedState :: "PadColor \<Rightarrow> LedState" where
  "new_LedState c = \<lparr>color = c, behavior = SOLID, is_on = True\<rparr>"

text \<open>
  Exceptions are values. \<open>ValueError\<close> carries its message, which tells the
  controller's own channel check from the range checks of the MIDI library.
\<close>

datatype error = ValueError string | AttributeError | KeyError

datatype msg_type = note_on | note_off | other_type

record message =
  msg_type :: msg_type
  msg_note :: int
  msg_velocity :: int
  msg_channel :: int

text \<open>
  \<open>mido.Message('note_on', note=.., velocity=.., channel=..)\<close>. The library is not
  part of the repository; its constructor checks the channel (0..15) and the two data
  bytes (0..127) and raises \<open>ValueError\<close> otherwise, which is what is modelled here.
\<close>

definition mido_Message :: "msg_type \<Rightarrow> int \<Rightarrow> int \<Rightarrow> int \<Rightarrow> error + message" where
  "mido_Message t n v ch =
     (if \<not> (0 \<le> ch \<and> ch \<le> 15) then Inl (ValueError ''channel must be in range 0..15'')
      else if \<not> (0 \<le> n \<and> n \<le> 127) then Inl (ValueError ''data byte must be in range 0..127'')
      else if \<not> (0 \<le> v \<and> v \<le> 127) then Inl (ValueError ''data byte must be in range 0..127'')
      else Inr \<lparr>msg_type = t, msg_note = n, msg_velocity = v, msg_channel = ch\<rparr>)"

text \<open>
  The controller's state as far as the LED operations use it: the state store
  \<open>led_states\<close> (a dictionary from note to \<open>LedState\<close>) and the output port. The
  port is \<open>None\<close> once \<open>cleanup\<close> has run, and otherwise holds the messages sent so
  far, oldest first. The reader thread's fields are modelled separately below.
\<close>

record LedController =
  led_states :: "int \<rightharpoonup> LedState"
  output_port :: "message list option"

text \<open>
  \<open>self.output_port.send(mido.Message(...))\<close>: the attribute lookup on the port comes
  first (\<open>AttributeError\<close> on \<open>None\<close>), then the message is built, then it is sent.
\<close>

definition output_send ::
  "msg_type \<Rightarrow> int \<Rightarrow> int \<Rightarrow> int \<Rightarrow> LedController \<Rightarrow> (error + unit) \<times> LedController" where
  "output_send t n v ch s =
     (case output_port s of
        None \<Rightarrow> (Inl AttributeError, s)
      | Some sent \<Rightarrow>
          (case mido_Message t n v ch of
             Inl e \<Rightarrow> (Inl e, s)
           | Inr m \<Rightarrow> (Inr (), s\<lparr>output_port := Some (sent @ [m])\<rparr>)))"

text \<open>
  \<open>set_pad_color(note, color, channel)\<close>. The function has no \<open>return\<close> statement, so
  a call that does not raise yields Python's \<open>None\<close>; the result type says so by
  returning a \<open>LedState option\<close> that is always \<open>None\<close>. The second component is the
  controller after the call, also when the call raises.
\<close>

definition set_pad_color ::
  "int \<Rightarrow> PadColor \<Rightarrow> int \<Rightarrow> LedController \<Rightarrow> (error + LedState option) \<times> LedController" where
  "set_pad_color n c ch s =
     (if \<not> (0 \<le> ch \<and> ch \<le> 15)
      then (Inl (ValueError ''Kanal muss zwischen 0 und 15 liegen''), s)
      else
        let s1 = s\<lparr>led_states := (led_states s)(n \<mapsto> new_LedState c)\<rparr>
        in (case output_send note_on n (pad_value c) ch s1 of
              (Inl e, s2) \<Rightarrow> (Inl e, s2)
            | (Inr u, s2) \<Rightarrow> (Inr None, s2)))"

text \<open>\<open>set_button_color(button, velocity)\<close>: one message on channel 0, nothing else.\<close>

definition set_button_color ::
  "ButtonType \<Rightarrow> int \<Rightarrow> LedController \<Rightarrow> (error + unit) \<times> LedController" where
  "set_button_color button v s = output_send note_on (button_value button) v 0 s"

text \<open>The two loops of \<open>clear_all\<close>; an exception leaves the loop at once.\<close>

fun set_pads ::
  "int list \<Rightarrow> PadColor \<Rightarrow> int \<Rightarrow> LedController \<Rightarrow> (error + unit) \<times> LedController" where
  "set_pads [] c ch s = (Inr (), s)"
| "set_pads (n # ns) c ch s =
     (case set_pad_color n c ch s of
        (Inl e, s') \<Rightarrow> (Inl e, s')
      | (Inr r, s') \<Rightarrow> set_pads ns c ch s')"

fun set_buttons ::
  "ButtonType list \<Rightarrow> int \<Rightarrow> LedController \<Rightarrow> (error + unit) \<times> LedController" where
  "set_buttons [] v s = (Inr (), s)"
| "set_buttons (b # bs) v s =
     (case set_button_color b v s of
        (Inl e, s') \<Rightarrow> (Inl e, s')
      | (Inr u, s') \<Rightarrow> set_buttons bs v s')"

text \<open>\<open>range(n)\<close> for a literal \<open>n\<close>.\<close>

definition py_range :: "nat \<Rightarrow> int list" where
  "py_range n = map int [0..<n]"

text \<open>
  \<open>clear_all\<close>: \<open>set_pad_color(note, PadColor.OFF)\<close> takes the default channel 6;
  \<open>set_button_color(button, False)\<close> sends velocity \<open>False\<close>, which is the integer 0.
\<close>

definition clear_all :: "LedController \<Rightarrow> (error + unit) \<times> LedController" where
  "clear_all s =
     (case set_pads (py_range 64) OFF 6 s of
        (Inl e, s') \<Rightarrow> (Inl e, s')
      | (Inr u, s') \<Rightarrow> set_buttons all_buttons 0 s')"

section \<open>Dashboard (dashboard.py): press behaviour and clear-all\<close>



text \<open>\<open>ButtonType(note)\<close> raises \<open>ValueError\<close> for a value that is no member.\<close>

definition ButtonType_of :: "int \<Rightarrow> error + ButtonType" where
  "ButtonType_of n =
     (case find (\<lambda>b. button_value b = n) all_buttons of
        None \<Rightarrow> Inl (ValueError ''not a valid ButtonType'')
      | Some b \<Rightarrow> Inr b)"





text \<open>
  \<open>LedButton\<close>: the widget of one control with its press-behaviour configuration. The
  two brightness attributes do not exist before \<open>on_button_click\<close> configures the
  control, hence the option; the attribute \<open>note\<close> is the field \<open>btn_note\<close>. The style sheet the widget paints itself with is display
  only and is left out.
\<close>

record LedButton =
  btn_note :: int
  is_rgb :: bool
  press_behavior_enabled :: bool
  button_mode :: string
  pressed_animation :: string
  unpressed_animation :: string
  pressed_color :: string
  unpressed_color :: string
  pressed_brightness :: "int option"
  unpressed_brightness :: "int option"

definition new_LedButton :: "int \<Rightarrow> bool \<Rightarrow> LedButton" where
  "new_LedButton n rgb =
     \<lparr>btn_note = n, is_rgb = rgb, press_behavior_enabled = False, button_mode = ''Toggle'',
      pressed_animation = ''Statisch'', unpressed_animation = ''Statisch'',
      pressed_color = ''RED'', unpressed_color = ''OFF'',
      pressed_brightness = None, unpressed_brightness = None\<rparr>"

definition is_track_or_scene :: "int \<Rightarrow> bool" where
  "is_track_or_scene n = (0x64 \<le> n \<and> n \<le> 0x6B \<or> 0x70 \<le> n \<and> n \<le> 0x77)"

definition is_pad :: "int \<Rightarrow> bool" where
  "is_pad n = (0 \<le> n \<and> n \<le> 63)"

text \<open>
  The dictionary \<open>self.buttons\<close> as \<open>setup_ui\<close> builds it: the 64 pads
  (\<open>(7-row)*8+col\<close> runs over 0..63), the scene buttons and the track buttons.
\<close>

definition setup_ui_buttons :: "int \<rightharpoonup> LedButton" where
  "setup_ui_buttons n =
     (if is_pad n then Some (new_LedButton n True)
      else if is_track_or_scene n then Some (new_LedButton n False)
      else None)"

text \<open>
  The dashboard: the controller (\<open>None\<close> while no device is connected), the
  controls, the toggle table, and the widgets the handlers read (a checkable button as
  its checked state, a combo box as its current text or current index).
\<close>

record Dashboard =
  controller :: "LedController option"
  buttons :: "int \<rightharpoonup> LedButton"
  toggle_states :: "int \<rightharpoonup> bool"
  enable_press_behavior :: bool
  button_mode_combo :: string
  pressed_animation_combo :: string
  unpressed_animation_combo :: string
  pressed_color_combo :: string
  unpressed_color_combo :: string
  pressed_brightness_combo :: int
  unpressed_brightness_combo :: int
  color_combo :: string
  brightness_combo :: int
  animation_combo :: string
  animation_combo_index :: int



definition ctl_set_button_color ::
  "int \<Rightarrow> int \<Rightarrow> Dashboard \<Rightarrow> (error + unit) \<times> Dashboard" where
  "ctl_set_button_color n v d =
     (case controller d of
        None \<Rightarrow> (Inl AttributeError, d)
      | Some s \<Rightarrow>
          (case ButtonType_of n of
             Inl e \<Rightarrow> (Inl e, d)
           | Inr b \<Rightarrow>
               (case set_button_color b v s of
                  (r, s') \<Rightarrow> (r, d\<lparr>controller := Some s'\<rparr>))))"



text \<open>
  \<open>on_clear_all\<close>: without a controller it only prints; otherwise it calls
  \<open>controller.clear_all()\<close> and repaints the widgets. It does not touch
  \<open>toggle_states\<close>.
\<close>

definition on_clear_all :: "Dashboard \<Rightarrow> (error + unit) \<times> Dashboard" where
  "on_clear_all d =
     (case controller d of
        None \<Rightarrow> (Inr (), d)
      | Some s \<Rightarrow> (case clear_all s of (r, s') \<Rightarrow> (r, d\<lparr>controller := Some s'\<rparr>)))"

section \<open>Messages of clear-all and example states\<close>

text \<open>The two messages \<open>clear_all\<close> sends: a pad on the default channel 6, a button on channel 0.\<close>

definition pad_off_message :: "int \<Rightarrow> message" where
  "pad_off_message n = \<lparr>msg_type = note_on, msg_note = n, msg_velocity = 0, msg_channel = 6\<rparr>"

definition button_off_message :: "ButtonType \<Rightarrow> message" where
  "button_off_message b =
     \<lparr>msg_type = note_on, msg_note = button_value b, msg_velocity = 0, msg_channel = 0\<rparr>"

text \<open>
  A controller with one lit pad and an open port that has sent nothing yet, and a
  dashboard around it as \<open>setup_ui\<close> leaves it, with the toggle bit of track button 1 set.
\<close>

definition example_controller :: LedController where
  "example_controller = \<lparr>led_states = [0 \<mapsto> new_LedState RED], output_port = Some []\<rparr>"

definition example_dashboard :: Dashboard where
  "example_dashboard =
     \<lparr>controller = Some example_controller,
      buttons = setup_ui_buttons,
      toggle_states = [0x64 \<mapsto> True],
      enable_press_behavior = False,
      button_mode_combo = ''Flash'',
      pressed_animation_combo = ''Statisch'',
      unpressed_animation_combo = ''Statisch'',
      pressed_color_combo = ''OFF'',
      unpressed_color_combo = ''OFF'',
      pressed_brightness_combo = 6,
      unpressed_brightness_combo = 6,
      color_combo = ''OFF'',
      brightness_combo = 6,
      animation_combo = ''Statisch'',
      animation_combo_index = 0\<rparr>"

section \<open>Dashboard (dashboard.py): clicks, tuples of a toggle control, the wire\<close>









definition press :: "int \<Rightarrow> message" where
  "press n = \<lparr>msg_type = note_on, msg_note = n, msg_velocity = 127, msg_channel = 0\<rparr>"

definition release :: "int \<Rightarrow> message" where
  "release n = \<lparr>msg_type = note_off, msg_note = n, msg_velocity = 0, msg_channel = 0\<rparr>"


section \<open>A control configured by a click\<close>



section \<open>Reader thread (LedController.\_handle\_input, add\_button\_callback)\<close>

text \<open>
  What the reader thread does that can be observed from outside, in the order it does
  it: forwarding a message to the loopback port, invoking the callback registered at
  position \<open>i\<close>, printing a caught exception.
\<close>

datatype event = Forwarded message | Invoked nat message | Logged error

text \<open>
  The fields of \<open>LedController\<close> the reader thread works on. The callbacks act on the
  state of whoever registered them (for the dashboard: \<open>handle_midi_input\<close> on the
  \<open>Dashboard\<close>), which is the \<open>world\<close>; \<open>trace\<close> records the events. The loopback port
  is \<open>None\<close> when no loopback was configured and otherwise holds the messages forwarded
  so far.
\<close>

record 'w reader =
  running :: bool
  loopback_port :: "message list option"
  button_callbacks :: "(message \<Rightarrow> 'w \<Rightarrow> (error + unit) \<times> 'w) list"
  world :: 'w
  trace :: "event list"

text \<open>The reader's fields as \<open>__init__\<close> sets them.\<close>

definition new_reader :: "message list option \<Rightarrow> 'w \<Rightarrow> 'w reader" where
  "new_reader loopback w =
     \<lparr>running = True, loopback_port = loopback, button_callbacks = [], world = w, trace = []\<rparr>"

definition add_button_callback ::
  "(message \<Rightarrow> 'w \<Rightarrow> (error + unit) \<times> 'w) \<Rightarrow> 'w reader \<Rightarrow> 'w reader" where
  "add_button_callback callback r = r\<lparr>button_callbacks := button_callbacks r @ [callback]\<rparr>"

text \<open>\<open>for callback in self.button_callbacks: callback(msg)\<close>, from position \<open>i\<close> on.\<close>

fun run_callbacks ::
  "nat \<Rightarrow> (message \<Rightarrow> 'w \<Rightarrow> (error + unit) \<times> 'w) list \<Rightarrow> message \<Rightarrow> 'w reader
   \<Rightarrow> (error + unit) \<times> 'w reader" where
  "run_callbacks i [] msg r = (Inr (), r)"
| "run_callbacks i (callback # callbacks) msg r =
     (let r1 = r\<lparr>trace := trace r @ [Invoked i msg]\<rparr>
      in case callback msg (world r1) of
           (Inl e, w) \<Rightarrow> (Inl e, r1\<lparr>world := w\<rparr>)
         | (Inr u, w) \<Rightarrow> run_callbacks (Suc i) callbacks msg (r1\<lparr>world := w\<rparr>))"

text \<open>The body of the \<open>for msg in self.input_port\<close> loop.\<close>

definition process_message :: "message \<Rightarrow> 'w reader \<Rightarrow> (error + unit) \<times> 'w reader" where
  "process_message msg r =
     (let r1 = (case loopback_port r of
                  None \<Rightarrow> r
                | Some forwarded \<Rightarrow>
                    r\<lparr>loopback_port := Some (forwarded @ [msg]),
                      trace := trace r @ [Forwarded msg]\<rparr>)
      in run_callbacks 0 (button_callbacks r1) msg r1)"

text \<open>
  The \<open>for\<close> loop over the messages the port delivers. An exception leaves the loop;
  the messages not yet delivered stay with the port.
\<close>

fun for_loop :: "message list \<Rightarrow> 'w reader \<Rightarrow> (error \<times> message list) option \<times> 'w reader" where
  "for_loop [] r = (None, r)"
| "for_loop (msg # msgs) r =
     (case process_message msg r of
        (Inl e, r') \<Rightarrow> (Some (e, msgs), r')
      | (Inr u, r') \<Rightarrow> for_loop msgs r')"

text \<open>
  \<open>_handle_input\<close>: \<open>while self.running: try: for msg in self.input_port: ... except
  Exception as e: print(...)\<close>, run on the finite list of messages the port delivers.
  A real port blocks when it has nothing to deliver; the model returns when the list
  is used up.
\<close>

function handle_input :: "message list \<Rightarrow> 'w reader \<Rightarrow> 'w reader" where
  "handle_input msgs r =
     (if \<not> running r then r
      else case for_loop msgs r of
             (None, r') \<Rightarrow> r'
           | (Some (e, rest), r') \<Rightarrow> handle_input rest (r'\<lparr>trace := trace r' @ [Logged e]\<rparr>))"
  by pat_completeness auto
termination
proof (relation "measure (\<lambda>(msgs, r). length msgs)")
  show "wf (measure (\<lambda>(msgs, r :: 'w reader). length msgs))"
    by simp
next
  fix msgs :: "message list" and r r' :: "'w reader" and x y e rest
  assume "(x, r') = for_loop msgs r" and "x = Some y" and "(e, rest) = y"
  then have loop: "for_loop msgs r = (Some (e, rest), r')"
    by simp
  have shorter: "length rest' < length ms"
    if "for_loop ms q = (Some (e', rest'), q')" for ms rest' e' and q q' :: "'w reader"
    using that
  proof (induction ms arbitrary: q)
    case Nil
    then show ?case by simp
  next
    case (Cons m ms)
    then show ?case
      by (cases "process_message m q") (fastforce split: sum.splits)
  qed
  from shorter [OF loop]
  show "((rest, r'\<lparr>trace := trace r' @ [Logged e]\<rparr>), msgs, r)
          \<in> measure (\<lambda>(msgs, r). length msgs)"
    by simp
qed

text \<open>The messages for which the callback registered at position \<open>i\<close> was invoked.\<close>

fun invoked_at :: "nat \<Rightarrow> event list \<Rightarrow> message list" where
  "invoked_at i [] = []"
| "invoked_at i (Invoked j m # es) = (if i = j then m # invoked_at i es else invoked_at i es)"
| "invoked_at i (Forwarded m # es) = invoked_at i es"
| "invoked_at i (Logged e # es) = invoked_at i es"

text \<open>
  Two observers on a counter, and a reader with a loopback port on which they are
  registered in this order: the first counts every message, the second raises on a
  \<open>note_on\<close> and adds ten otherwise.
\<close>

definition counting_callback :: "message \<Rightarrow> nat \<Rightarrow> (error + unit) \<times> nat" where
  "counting_callback m w = (Inr (), w + 1)"

definition failing_callback :: "message \<Rightarrow> nat \<Rightarrow> (error + unit) \<times> nat" where
  "failing_callback m w = (if msg_type m = note_on then (Inl KeyError, w) else (Inr (), w + 10))"

definition example_reader :: "nat reader" where
  "example_reader =
     add_button_callback failing_callback
       (add_button_callback counting_callback (new_reader (Some []) 0))"

text \<open>
  Following the claim's words, from the callbacks' own results: how many of the
  registered callbacks are invoked for a message (all of them when none raises,
  otherwise those up to and including the first that raises), and the exception the
  first raising callback raises, if any.
\<close>

fun invoked_count :: "(message \<Rightarrow> 'w \<Rightarrow> (error + unit) \<times> 'w) list \<Rightarrow> message \<Rightarrow> 'w \<Rightarrow> nat" where
  "invoked_count [] m w = 0"
| "invoked_count (cb # cbs) m w =
     (case cb m w of
        (Inl e, w') \<Rightarrow> 1
      | (Inr u, w') \<Rightarrow> Suc (invoked_count cbs m w'))"

fun first_error ::
  "(message \<Rightarrow> 'w \<Rightarrow> (error + unit) \<times> 'w) list \<Rightarrow> message \<Rightarrow> 'w \<Rightarrow> error option" where
  "first_error [] m w = None"
| "first_error (cb # cbs) m w =
     (case cb m w of
        (Inl e, w') \<Rightarrow> Some e
      | (Inr u, w') \<Rightarrow> first_error cbs m w')"

text \<open>The same two observers registered the other way round: the raising one first.\<close>

definition example_reader_raising_first :: "nat reader" where
  "example_reader_raising_first =
     add_button_callback counting_callback
       (add_button_callback failing_callback (new_reader (Some []) 0))"

section \<open>Theorems\<close>

subsection \<open>Colour table\<close>

lemma color_map_distinct: "distinct (map fst color_map)"
  by (simp add: color_map_def)

lemma color_map_keys: "fst ` set color_map = {0..23} \<union> {44..47}"
proof (rule set_eqI)
  fix v :: int
  have "v \<in> fst ` set color_map \<longleftrightarrow> v \<in> set (map fst color_map)"
    by simp
  also have "\<dots> \<longleftrightarrow> (0 \<le> v \<and> v \<le> 23) \<or> (44 \<le> v \<and> v \<le> 47)"
    unfolding color_map_def by (simp del: set_map) presburger
  finally show "v \<in> fst ` set color_map \<longleftrightarrow> v \<in> {0..23} \<union> {44..47}"
    by simp
qed

lemma pad_value_in_color_map: "pad_value c \<in> fst ` set color_map"
  unfolding color_map_keys by (cases c) simp_all

text \<open>
  Claim C9. \<open>get_hex_color\<close> is total on the integers: a velocity that is a key of the
  palette dictionary (the keys are exactly 0..23 and 44..47, which covers the value of
  every \<open>PadColor\<close> member) yields that entry's hex string, and every other integer
  yields the black default \<open>#000000\<close>; there is no failing input.
\<close>

theorem get_hex_color_total:
  "((v, h) \<in> set color_map \<longrightarrow> get_hex_color v = h)
   \<and> (v \<notin> {0..23} \<union> {44..47} \<longrightarrow> get_hex_color v = ''#000000'')
   \<and> (\<exists>h'. (pad_value c, h') \<in> set color_map \<and> get_hex_color (pad_value c) = h')"
proof (intro conjI impI)
  assume "(v, h) \<in> set color_map"
  then have "map_of color_map v = Some h"
    using color_map_distinct by (rule_tac map_of_is_SomeI)
  then show "get_hex_color v = h"
    by (simp add: get_hex_color_def)
next
  assume "v \<notin> {0..23} \<union> {44..47}"
  then have "v \<notin> fst ` set color_map"
    by (simp only: color_map_keys not_False_eq_True)
  then have "map_of color_map v = None"
    by (simp add: map_of_eq_None_iff)
  then show "get_hex_color v = ''#000000''"
    by (simp add: get_hex_color_def)
next
  from pad_value_in_color_map [of c]
  obtain h' where m: "(pad_value c, h') \<in> set color_map"
    by force
  then have "map_of color_map (pad_value c) = Some h'"
    using color_map_distinct by (rule_tac map_of_is_SomeI)
  then have "get_hex_color (pad_value c) = h'"
    by (simp add: get_hex_color_def)
  with m show "\<exists>h'. (pad_value c, h') \<in> set color_map \<and> get_hex_color (pad_value c) = h'"
    by blast
qed

theorem get_hex_color_total_witness:
  "(5, ''#FF0000'') \<in> set color_map \<and> get_hex_color 5 = ''#FF0000''
   \<and> (24::int) \<notin> {0..23} \<union> {44..47} \<and> get_hex_color 24 = ''#000000''
   \<and> get_hex_color (- 1) = ''#000000''
   \<and> get_hex_color (pad_value BLUE) = ''#0000FF''"
proof -
  have m: "(5, ''#FF0000'') \<in> set color_map"
    by (simp add: color_map_def)
  have "get_hex_color 5 = ''#FF0000''"
    using get_hex_color_total [of 5 "''#FF0000''" BLUE] m by blast
  moreover have "get_hex_color 24 = ''#000000''"
    using get_hex_color_total [of 24 "''''" BLUE] by simp
  moreover have "get_hex_color (- 1) = ''#000000''"
    using get_hex_color_total [of "- 1" "''''" BLUE] by simp
  moreover have "get_hex_color (pad_value BLUE) = ''#0000FF''"
    by (simp add: get_hex_color_def color_map_def)
  ultimately show ?thesis using m by simp
qed

subsection \<open>Grid coordinates\<close>

text \<open>
  Claim C8. For every pad index \<open>i\<close> in 0..63, \<open>_get_row_col\<close> yields
  \<open>(i div 8, i mod 8)\<close>, both components lie in 0..7, and \<open>_get_note\<close> applied to them
  gives \<open>i\<close> back.
\<close>

theorem get_row_col_roundtrip:
  assumes "0 \<le> i" and "i \<le> 63"
  shows "get_row_col i = (i div 8, i mod 8)
         \<and> (case get_row_col i of (row, col) \<Rightarrow>
               get_note row col = i \<and> 0 \<le> row \<and> row \<le> 7 \<and> 0 \<le> col \<and> col \<le> 7)"
proof -
  have "i div 8 * 8 + i mod 8 = i"
    by simp
  moreover have "0 \<le> i div 8" and "i div 8 \<le> 7"
    using assms by simp_all
  moreover have "0 \<le> i mod 8" and "i mod 8 \<le> 7"
    by simp_all
  ultimately show ?thesis
    by (simp add: get_row_col_def get_note_def)
qed

theorem get_row_col_roundtrip_witness:
  "(0::int) \<le> 42 \<and> (42::int) \<le> 63 \<and> get_row_col 42 = (5, 2) \<and> get_note 5 2 = 42"
  using get_row_col_roundtrip [of 42] by (simp add: get_row_col_def get_note_def)

subsection \<open>Output port and state store\<close>

lemma pad_value_range: "0 \<le> pad_value c \<and> pad_value c \<le> 127"
  by (cases c) simp_all

lemma button_value_range: "0 \<le> button_value b \<and> button_value b \<le> 127"
  by (cases b) simp_all

lemma output_send_ok:
  "output_port s = Some sent \<Longrightarrow> 0 \<le> ch \<Longrightarrow> ch \<le> 15 \<Longrightarrow> 0 \<le> n \<Longrightarrow> n \<le> 127
   \<Longrightarrow> 0 \<le> v \<Longrightarrow> v \<le> 127
   \<Longrightarrow> output_send t n v ch s =
       (Inr (), s\<lparr>output_port :=
          Some (sent @ [\<lparr>msg_type = t, msg_note = n, msg_velocity = v, msg_channel = ch\<rparr>])\<rparr>)"
  by (simp add: output_send_def mido_Message_def)

lemma output_send_led_states: "led_states (snd (output_send t n v ch s)) = led_states s"
  by (simp add: output_send_def split: option.splits sum.splits)


lemma set_pad_color_ok:
  "output_port s = Some sent \<Longrightarrow> 0 \<le> ch \<Longrightarrow> ch \<le> 15 \<Longrightarrow> 0 \<le> n \<Longrightarrow> n \<le> 127
   \<Longrightarrow> set_pad_color n c ch s =
       (Inr None,
        s\<lparr>led_states := (led_states s)(n \<mapsto> new_LedState c),
          output_port :=
            Some (sent @ [\<lparr>msg_type = note_on, msg_note = n, msg_velocity = pad_value c,
                           msg_channel = ch\<rparr>])\<rparr>)"
  using pad_value_range [of c]
  by (simp add: set_pad_color_def Let_def output_send_ok)

lemma set_pad_color_success:
  assumes "set_pad_color n c ch s = (Inr r, s')"
  shows "r = None \<and> 0 \<le> ch \<and> ch \<le> 15 \<and> 0 \<le> n \<and> n \<le> 127
         \<and> (\<exists>sent. output_port s = Some sent \<and>
              s' = s\<lparr>led_states := (led_states s)(n \<mapsto> new_LedState c),
                     output_port :=
                       Some (sent @ [\<lparr>msg_type = note_on, msg_note = n,
                                      msg_velocity = pad_value c, msg_channel = ch\<rparr>])\<rparr>)"
  using assms
  by (auto simp: set_pad_color_def Let_def output_send_def mido_Message_def
      split: option.splits sum.splits if_splits)

text \<open>
  Claim C3. A call of \<open>set_pad_color\<close> with a channel below 0 or above 15 raises the
  \<open>ValueError\<close> of the channel check, and the controller after the call is the
  controller before it: no entry of the state store has changed and nothing was sent.
\<close>

theorem set_pad_color_invalid_channel:
  assumes "ch < 0 \<or> ch > 15"
  shows "set_pad_color n c ch s = (Inl (ValueError ''Kanal muss zwischen 0 und 15 liegen''), s)"
  using assms by (auto simp: set_pad_color_def)

theorem set_pad_color_invalid_channel_witness:
  "((16::int) < 0 \<or> (16::int) > 15)
   \<and> set_pad_color 0 GREEN 16 example_controller
       = (Inl (ValueError ''Kanal muss zwischen 0 und 15 liegen''), example_controller)
   \<and> led_states (snd (set_pad_color 0 GREEN 16 example_controller)) 0 = Some (new_LedState RED)
   \<and> output_port (snd (set_pad_color 0 GREEN 16 example_controller)) = Some []"
  using set_pad_color_invalid_channel [of 16 0 GREEN example_controller]
  by (simp add: example_controller_def)

text \<open>
  Claim C4, as stated, fails: the call returns \<open>None\<close> also when the note had an
  entry before.
\<close>

theorem set_pad_color_previous_counterexample:
  "led_states example_controller 0 = Some (new_LedState RED)
   \<and> fst (set_pad_color 0 GREEN 6 example_controller) = Inr None
   \<and> fst (set_pad_color 0 GREEN 6 example_controller) \<noteq> Inr (led_states example_controller 0)"
proof -
  have "output_port example_controller = Some []"
    by (simp add: example_controller_def)
  then have "set_pad_color 0 GREEN 6 example_controller =
       (Inr None,
        example_controller\<lparr>led_states := (led_states example_controller)(0 \<mapsto> new_LedState GREEN),
          output_port :=
            Some ([] @ [\<lparr>msg_type = note_on, msg_note = 0, msg_velocity = pad_value GREEN,
                           msg_channel = 6\<rparr>])\<rparr>)"
    by (rule set_pad_color_ok) simp_all
  then show ?thesis
    by (simp add: example_controller_def)
qed

text \<open>
  Claim C4, amended. A call of \<open>set_pad_color\<close> that does not raise returns
  \<open>None\<close>, has replaced the entry of that note by \<open>LedState(color)\<close> and left every
  other entry alone, and has sent exactly one \<open>note_on\<close> message with the note, the
  colour's velocity and the channel. With a channel in 0..15, a note in 0..127 and an
  open port the call does not raise.
\<close>

theorem set_pad_color_replaces_entry:
  "(set_pad_color n c ch s = (Inr r, s') \<longrightarrow>
      r = None
      \<and> led_states s' = (led_states s)(n \<mapsto> new_LedState c)
      \<and> (\<exists>sent. output_port s = Some sent \<and>
            output_port s' =
              Some (sent @ [\<lparr>msg_type = note_on, msg_note = n, msg_velocity = pad_value c,
                             msg_channel = ch\<rparr>])))
   \<and> (0 \<le> ch \<and> ch \<le> 15 \<and> 0 \<le> n \<and> n \<le> 127 \<and> output_port s = Some sent \<longrightarrow>
        set_pad_color n c ch s =
          (Inr None,
           s\<lparr>led_states := (led_states s)(n \<mapsto> new_LedState c),
             output_port :=
               Some (sent @ [\<lparr>msg_type = note_on, msg_note = n, msg_velocity = pad_value c,
                              msg_channel = ch\<rparr>])\<rparr>))"
proof (intro conjI impI)
  assume a: "set_pad_color n c ch s = (Inr r, s')"
  from set_pad_color_success [OF a]
  obtain sent' where r: "r = None" and p: "output_port s = Some sent'"
    and s': "s' = s\<lparr>led_states := (led_states s)(n \<mapsto> new_LedState c),
                     output_port :=
                       Some (sent' @ [\<lparr>msg_type = note_on, msg_note = n,
                                      msg_velocity = pad_value c, msg_channel = ch\<rparr>])\<rparr>"
    by blast
  show "r = None" by (rule r)
  show "led_states s' = (led_states s)(n \<mapsto> new_LedState c)"
    by (simp add: s')
  show "\<exists>sent. output_port s = Some sent \<and>
            output_port s' =
              Some (sent @ [\<lparr>msg_type = note_on, msg_note = n, msg_velocity = pad_value c,
                             msg_channel = ch\<rparr>])"
    using p by (simp add: s')
next
  assume "0 \<le> ch \<and> ch \<le> 15 \<and> 0 \<le> n \<and> n \<le> 127 \<and> output_port s = Some sent"
  then show "set_pad_color n c ch s =
          (Inr None,
           s\<lparr>led_states := (led_states s)(n \<mapsto> new_LedState c),
             output_port :=
               Some (sent @ [\<lparr>msg_type = note_on, msg_note = n, msg_velocity = pad_value c,
                              msg_channel = ch\<rparr>])\<rparr>)"
    by (simp add: set_pad_color_ok)
qed

theorem set_pad_color_replaces_entry_witness:
  "set_pad_color 0 GREEN 6 example_controller =
     (Inr None,
      \<lparr>led_states = [0 \<mapsto> new_LedState GREEN],
       output_port = Some [\<lparr>msg_type = note_on, msg_note = 0, msg_velocity = 21,
                            msg_channel = 6\<rparr>]\<rparr>)
   \<and> (0::int) \<le> 6 \<and> (6::int) \<le> 15 \<and> (0::int) \<le> 0 \<and> (0::int) \<le> 127
   \<and> output_port example_controller = Some []"
proof -
  have p: "output_port example_controller = Some []"
    by (simp add: example_controller_def)
  have "set_pad_color 0 GREEN 6 example_controller =
          (Inr None,
           example_controller\<lparr>led_states := (led_states example_controller)(0 \<mapsto> new_LedState GREEN),
             output_port :=
               Some ([] @ [\<lparr>msg_type = note_on, msg_note = 0, msg_velocity = pad_value GREEN,
                              msg_channel = 6\<rparr>])\<rparr>)"
    using set_pad_color_replaces_entry [of 0 GREEN 6 example_controller None example_controller "[]"] p
    by simp
  then show ?thesis
    using p by (simp add: example_controller_def)
qed

text \<open>
  Claim C10. \<open>set_button_color\<close> leaves the state store as it was, whether it sends
  or raises; called through the dashboard it leaves the toggle table and the
  controller's state store as they were.
\<close>

theorem set_button_color_frame:
  "led_states (snd (set_button_color b v s)) = led_states s
   \<and> toggle_states (snd (ctl_set_button_color n v d)) = toggle_states d
   \<and> map_option led_states (controller (snd (ctl_set_button_color n v d)))
       = map_option led_states (controller d)"
proof (intro conjI)
  show f: "\<And>b s. led_states (snd (set_button_color b v s)) = led_states s"
    by (simp add: set_button_color_def output_send_led_states)
  show "toggle_states (snd (ctl_set_button_color n v d)) = toggle_states d"
    by (simp add: ctl_set_button_color_def split: option.splits sum.splits prod.splits)
  show "map_option led_states (controller (snd (ctl_set_button_color n v d)))
       = map_option led_states (controller d)"
    using f
    by (auto simp: ctl_set_button_color_def split: option.splits sum.splits prod.splits)
      (metis snd_conv)
qed

subsection \<open>Clear-all\<close>

lemma set_pads_ok:
  "output_port s = Some sent \<Longrightarrow> 0 \<le> ch \<Longrightarrow> ch \<le> 15 \<Longrightarrow> \<forall>n\<in>set ns. 0 \<le> n \<and> n \<le> 127
   \<Longrightarrow> set_pads ns c ch s =
       (Inr (),
        s\<lparr>led_states := (\<lambda>k. if k \<in> set ns then Some (new_LedState c) else led_states s k),
          output_port :=
            Some (sent @ map (\<lambda>n. \<lparr>msg_type = note_on, msg_note = n, msg_velocity = pad_value c,
                                    msg_channel = ch\<rparr>) ns)\<rparr>)"
proof (induction ns arbitrary: s sent)
  case Nil
  then show ?case by simp
next
  case (Cons n ns)
  let ?m = "\<lparr>msg_type = note_on, msg_note = n, msg_velocity = pad_value c, msg_channel = ch\<rparr>"
  let ?s1 = "s\<lparr>led_states := (led_states s)(n \<mapsto> new_LedState c),
               output_port := Some (sent @ [?m])\<rparr>"
  have step: "set_pad_color n c ch s = (Inr None, ?s1)"
    using Cons.prems by (simp add: set_pad_color_ok)
  have port: "output_port ?s1 = Some (sent @ [?m])"
    by simp
  have rest: "\<forall>k\<in>set ns. 0 \<le> k \<and> k \<le> 127"
    using Cons.prems by simp
  have "set_pads ns c ch ?s1 =
       (Inr (),
        ?s1\<lparr>led_states := (\<lambda>k. if k \<in> set ns then Some (new_LedState c) else led_states ?s1 k),
          output_port :=
            Some ((sent @ [?m]) @ map (\<lambda>n. \<lparr>msg_type = note_on, msg_note = n,
                     msg_velocity = pad_value c, msg_channel = ch\<rparr>) ns)\<rparr>)"
    using Cons.IH [OF port Cons.prems(2) Cons.prems(3) rest] .
  moreover have "(\<lambda>k. if k \<in> set ns then Some (new_LedState c) else led_states ?s1 k)
        = (\<lambda>k. if k \<in> set (n # ns) then Some (new_LedState c) else led_states s k)"
    by (rule ext) simp
  ultimately show ?case
    using step by simp
qed

lemma set_button_color_ok:
  "output_port s = Some sent \<Longrightarrow> 0 \<le> v \<Longrightarrow> v \<le> 127
   \<Longrightarrow> set_button_color b v s =
       (Inr (), s\<lparr>output_port :=
          Some (sent @ [\<lparr>msg_type = note_on, msg_note = button_value b, msg_velocity = v,
                         msg_channel = 0\<rparr>])\<rparr>)"
  using button_value_range [of b]
  by (simp add: set_button_color_def output_send_ok)

lemma set_buttons_ok:
  "output_port s = Some sent \<Longrightarrow> 0 \<le> v \<Longrightarrow> v \<le> 127
   \<Longrightarrow> set_buttons bs v s =
       (Inr (), s\<lparr>output_port :=
          Some (sent @ map (\<lambda>b. \<lparr>msg_type = note_on, msg_note = button_value b,
                                  msg_velocity = v, msg_channel = 0\<rparr>) bs)\<rparr>)"
proof (induction bs arbitrary: s sent)
  case Nil
  then show ?case by simp
next
  case (Cons b bs)
  let ?m = "\<lparr>msg_type = note_on, msg_note = button_value b, msg_velocity = v, msg_channel = 0\<rparr>"
  let ?s1 = "s\<lparr>output_port := Some (sent @ [?m])\<rparr>"
  have step: "set_button_color b v s = (Inr (), ?s1)"
    using Cons.prems by (simp add: set_button_color_ok)
  have port: "output_port ?s1 = Some (sent @ [?m])"
    by simp
  show ?case
    using step Cons.IH [OF port Cons.prems(2) Cons.prems(3)] by simp
qed

lemma set_py_range: "k \<in> set (py_range 64) \<longleftrightarrow> is_pad k"
proof -
  have "k \<in> set (py_range 64) \<longleftrightarrow> (\<exists>i<64. k = int i)"
    by (auto simp: py_range_def)
  also have "\<dots> \<longleftrightarrow> 0 \<le> k \<and> k \<le> 63"
  proof
    assume "\<exists>i<64. k = int i"
    then show "0 \<le> k \<and> k \<le> 63" by auto
  next
    assume "0 \<le> k \<and> k \<le> 63"
    then have "nat k < 64 \<and> k = int (nat k)" by linarith
    then show "\<exists>i<64. k = int i" by blast
  qed
  finally show ?thesis by (simp add: is_pad_def)
qed

lemma clear_all_ok:
  assumes "output_port s = Some sent"
  shows "clear_all s =
       (Inr (),
        s\<lparr>led_states := (\<lambda>k. if is_pad k then Some (new_LedState OFF) else led_states s k),
          output_port :=
            Some (sent @ map pad_off_message (py_range 64)
                       @ map button_off_message all_buttons)\<rparr>)"
proof -
  let ?s1 = "s\<lparr>led_states := (\<lambda>k. if k \<in> set (py_range 64) then Some (new_LedState OFF) else led_states s k),
          output_port :=
            Some (sent @ map (\<lambda>n. \<lparr>msg_type = note_on, msg_note = n, msg_velocity = pad_value OFF,
                                    msg_channel = 6\<rparr>) (py_range 64))\<rparr>"
  have rng: "\<forall>n\<in>set (py_range 64). 0 \<le> n \<and> n \<le> 127"
    by (simp add: set_py_range is_pad_def)
  have pads: "set_pads (py_range 64) OFF 6 s = (Inr (), ?s1)"
    using set_pads_ok [OF assms _ _ rng, of 6 OFF] by simp
  have port: "output_port ?s1 = Some (sent @ map (\<lambda>n. \<lparr>msg_type = note_on, msg_note = n, msg_velocity = pad_value OFF,
                                    msg_channel = 6\<rparr>) (py_range 64))"
    by simp
  have btns: "set_buttons all_buttons 0 ?s1 = (Inr (), ?s1\<lparr>output_port :=
          Some ((sent @ map (\<lambda>n. \<lparr>msg_type = note_on, msg_note = n, msg_velocity = pad_value OFF,
                                    msg_channel = 6\<rparr>) (py_range 64)) @ map (\<lambda>b. \<lparr>msg_type = note_on, msg_note = button_value b,
                                  msg_velocity = 0, msg_channel = 0\<rparr>) all_buttons)\<rparr>)"
    using set_buttons_ok [OF port, of 0 all_buttons] by simp
  show ?thesis
    unfolding clear_all_def pads using btns
    by (simp add: set_py_range pad_off_message_def [abs_def] button_off_message_def [abs_def])
qed

lemma on_clear_all_ok:
  assumes "controller d = Some s" and "output_port s = Some sent"
  shows "on_clear_all d =
       (Inr (),
        d\<lparr>controller := Some
          (s\<lparr>led_states := (\<lambda>k. if is_pad k then Some (new_LedState OFF) else led_states s k),
             output_port :=
               Some (sent @ map pad_off_message (py_range 64)
                          @ map button_off_message all_buttons)\<rparr>)\<rparr>)"
  using assms by (simp add: on_clear_all_def clear_all_ok)

lemma py_range_64_Cons: "py_range 64 = 0 # map int [1..<64]"
proof -
  have "[0..<64] = 0 # [1..<64]"
    by (subst upt_conv_Cons) simp_all
  then show ?thesis
    by (simp add: py_range_def)
qed

text \<open>
  Claim C2, as stated, fails in three places: after clear-all the toggle table still
  holds the bit of track button 1, the state store has no entry for that button, and
  the pad messages went out on channel 6, not 0 (the store itself records no channel).
\<close>

theorem on_clear_all_counterexample:
  "fst (on_clear_all example_dashboard) = Inr ()
   \<and> toggle_states (snd (on_clear_all example_dashboard)) 0x64 = Some True
   \<and> led_states (the (controller (snd (on_clear_all example_dashboard)))) 0x64 = None
   \<and> hd (the (output_port (the (controller (snd (on_clear_all example_dashboard))))))
       = \<lparr>msg_type = note_on, msg_note = 0, msg_velocity = 0, msg_channel = 6\<rparr>"
proof -
  have c: "controller example_dashboard = Some example_controller"
    by (simp add: example_dashboard_def)
  have p: "output_port example_controller = Some []"
    by (simp add: example_controller_def)
  show ?thesis
    unfolding on_clear_all_ok [OF c p]
    by (simp add: example_dashboard_def example_controller_def is_pad_def
        py_range_64_Cons pad_off_message_def)
qed

text \<open>
  Claim C2, amended. With an open output port, clear-all does not raise; afterwards the
  state store holds \<open>LedState(OFF)\<close> for every pad note 0..63 and is unchanged at
  every other note (buttons get no entry); the messages sent are OFF for the pads
  0..63 in index order on channel 6, then velocity 0 for the sixteen buttons in
  declaration order on channel 0; the toggle table is unchanged.
\<close>

theorem on_clear_all_result:
  assumes "controller d = Some s" and "output_port s = Some sent"
  shows "\<exists>s'. on_clear_all d = (Inr (), d\<lparr>controller := Some s'\<rparr>)
           \<and> clear_all s = (Inr (), s')
           \<and> (\<forall>k. led_states s' k
                    = (if is_pad k then Some (new_LedState OFF) else led_states s k))
           \<and> output_port s' =
                Some (sent @ map pad_off_message (py_range 64)
                           @ map button_off_message all_buttons)
           \<and> toggle_states (snd (on_clear_all d)) = toggle_states d"
  using assms by (simp add: on_clear_all_ok clear_all_ok)

theorem on_clear_all_result_witness:
  "controller example_dashboard = Some example_controller
   \<and> output_port example_controller = Some []
   \<and> fst (on_clear_all example_dashboard) = Inr ()
   \<and> toggle_states (snd (on_clear_all example_dashboard)) = [0x64 \<mapsto> True]"
proof -
  have c: "controller example_dashboard = Some example_controller"
    by (simp add: example_dashboard_def)
  have p: "output_port example_controller = Some []"
    by (simp add: example_controller_def)
  from on_clear_all_result [OF c p]
  have "fst (on_clear_all example_dashboard) = Inr ()
        \<and> toggle_states (snd (on_clear_all example_dashboard)) = toggle_states example_dashboard"
    by auto
  then show ?thesis
    using c p by (simp add: example_dashboard_def)
qed

subsection \<open>Press behaviour\<close>

























subsection \<open>A toggle control after clear-all\<close>





subsection \<open>Track and Scene button writes\<close>










subsection \<open>Reader thread\<close>

lemma run_callbacks_trace:
  "\<exists>k\<le>length cbs.
      trace (snd (run_callbacks i cbs m r)) = trace r @ map (\<lambda>j. Invoked j m) [i..<i + k]
    \<and> world (snd (run_callbacks i cbs m r))
        = fold (\<lambda>cb w. snd (cb m w)) (take k cbs) (world r)
    \<and> (fst (run_callbacks i cbs m r) = Inr () \<longrightarrow> k = length cbs)
    \<and> (fst (run_callbacks i cbs m r) \<noteq> Inr () \<longrightarrow> 0 < k)"
proof (induction cbs arbitrary: i r)
  case Nil
  show ?case by simp
next
  case (Cons cb cbs)
  let ?r1 = "r\<lparr>trace := trace r @ [Invoked i m]\<rparr>"
  obtain res w where cb: "cb m (world r) = (res, w)"
    by (cases "cb m (world r)")
  show ?case
  proof (cases res)
    case (Inl e)
    then have "run_callbacks i (cb # cbs) m r = (Inl e, ?r1\<lparr>world := w\<rparr>)"
      using cb by simp
    then show ?thesis
      using cb by (intro exI [of _ 1]) simp
  next
    case (Inr u)
    let ?r2 = "?r1\<lparr>world := w\<rparr>"
    have step: "run_callbacks i (cb # cbs) m r = run_callbacks (Suc i) cbs m ?r2"
      using cb Inr by simp
    from Cons.IH [of "Suc i" ?r2]
    obtain k where k: "k \<le> length cbs"
      and tr: "trace (snd (run_callbacks (Suc i) cbs m ?r2))
                 = trace ?r2 @ map (\<lambda>j. Invoked j m) [Suc i..<Suc i + k]"
      and wo: "world (snd (run_callbacks (Suc i) cbs m ?r2))
                 = fold (\<lambda>cb w. snd (cb m w)) (take k cbs) (world ?r2)"
      and fi: "fst (run_callbacks (Suc i) cbs m ?r2) = Inr () \<longrightarrow> k = length cbs"
      by blast
    have upt: "[i..<Suc (i + k)] = i # [Suc i..<Suc (i + k)]"
      by (simp add: upt_conv_Cons)
    show ?thesis
      unfolding step
      using k tr wo fi cb
      by (intro exI [of _ "Suc k"]) (simp add: upt del: upt_Suc)
  qed
qed

lemma run_callbacks_frame:
  "loopback_port (snd (run_callbacks i cbs m r)) = loopback_port r
   \<and> running (snd (run_callbacks i cbs m r)) = running r
   \<and> button_callbacks (snd (run_callbacks i cbs m r)) = button_callbacks r"
  by (induction cbs arbitrary: i r) (auto simp: Let_def split: prod.splits sum.splits)

lemma process_message_frame:
  "loopback_port (snd (process_message m r))
     = map_option (\<lambda>forwarded. forwarded @ [m]) (loopback_port r)
   \<and> running (snd (process_message m r)) = running r
   \<and> button_callbacks (snd (process_message m r)) = button_callbacks r"
  by (simp add: process_message_def Let_def run_callbacks_frame split: option.splits)

lemma process_message_trace:
  "\<exists>k\<le>length (button_callbacks r).
      trace (snd (process_message m r))
        = trace r @ (case loopback_port r of None \<Rightarrow> [] | Some forwarded \<Rightarrow> [Forwarded m])
            @ map (\<lambda>j. Invoked j m) [0..<k]
    \<and> world (snd (process_message m r))
        = fold (\<lambda>cb w. snd (cb m w)) (take k (button_callbacks r)) (world r)
    \<and> (fst (process_message m r) = Inr () \<longrightarrow> k = length (button_callbacks r))
    \<and> (fst (process_message m r) \<noteq> Inr () \<longrightarrow> 0 < k)"
proof (cases "loopback_port r")
  case None
  with run_callbacks_trace [of "button_callbacks r" 0 m r] show ?thesis
    by (simp add: process_message_def)
next
  case (Some forwarded)
  let ?r1 = "r\<lparr>loopback_port := Some (forwarded @ [m]), trace := trace r @ [Forwarded m]\<rparr>"
  from run_callbacks_trace [of "button_callbacks ?r1" 0 m ?r1] Some show ?thesis
    by (simp add: process_message_def)
qed

lemma handle_input_Nil: "handle_input [] r = r"
  by simp

lemma handle_input_Cons:
  assumes "running r"
  shows "handle_input (m # ms) r =
     (case process_message m r of
        (Inl e, r') \<Rightarrow> handle_input ms (r'\<lparr>trace := trace r' @ [Logged e]\<rparr>)
      | (Inr u, r') \<Rightarrow> handle_input ms r')"
proof -
  obtain res r' where pm: "process_message m r = (res, r')"
    by (cases "process_message m r")
  have run': "running r'"
    using process_message_frame [of m r] pm assms by simp
  show ?thesis
  proof (cases res)
    case (Inl e)
    then show ?thesis
      using pm assms by (subst handle_input.simps) simp
  next
    case (Inr u)
    have "handle_input (m # ms) r = (case for_loop ms r' of
             (None, r'') \<Rightarrow> r''
           | (Some (e, rest), r'') \<Rightarrow> handle_input rest (r''\<lparr>trace := trace r'' @ [Logged e]\<rparr>))"
      using pm Inr assms by (subst handle_input.simps) simp
    also have "\<dots> = handle_input ms r'"
      using run' by (subst (2) handle_input.simps) simp
    finally show ?thesis
      using pm Inr by simp
  qed
qed

lemma handle_input_frame:
  "running r \<Longrightarrow>
     loopback_port (handle_input msgs r)
       = map_option (\<lambda>forwarded. forwarded @ msgs) (loopback_port r)
   \<and> button_callbacks (handle_input msgs r) = button_callbacks r
   \<and> running (handle_input msgs r)"
proof (induction msgs arbitrary: r)
  case Nil
  then show ?case
    by (simp add: option.map_ident)
next
  case (Cons m ms)
  obtain res r' where pm: "process_message m r = (res, r')"
    by (cases "process_message m r")
  have fr: "loopback_port r' = map_option (\<lambda>forwarded. forwarded @ [m]) (loopback_port r)"
    "running r'" "button_callbacks r' = button_callbacks r"
    using process_message_frame [of m r] pm Cons.prems by simp_all
  show ?case
  proof (cases res)
    case (Inl e)
    let ?r2 = "r'\<lparr>trace := trace r' @ [Logged e]\<rparr>"
    have "handle_input (m # ms) r = handle_input ms ?r2"
      using pm Inl Cons.prems by (simp add: handle_input_Cons del: handle_input.simps)
    moreover have "running ?r2"
      using fr by simp
    ultimately show ?thesis
      using Cons.IH [of ?r2] fr by (simp add: option.map_comp comp_def del: handle_input.simps)
  next
    case (Inr u)
    have "handle_input (m # ms) r = handle_input ms r'"
      using pm Inr Cons.prems by (simp add: handle_input_Cons del: handle_input.simps)
    then show ?thesis
      using Cons.IH [of r'] fr by (simp add: option.map_comp comp_def del: handle_input.simps)
  qed
qed

lemma invoked_at_append: "invoked_at i (es @ fs) = invoked_at i es @ invoked_at i fs"
  by (induction i es rule: invoked_at.induct) simp_all

lemma invoked_at_later: "invoked_at 0 (map (\<lambda>j. Invoked j m) [Suc i..<n]) = []"
  by (induction n) (simp_all add: invoked_at_append)

lemma invoked_at_first:
  assumes "0 < k"
  shows "invoked_at 0 (map (\<lambda>j. Invoked j m) [0..<k]) = [m]"
proof -
  have "[0..<k] = 0 # [Suc 0..<k]"
    using assms by (simp add: upt_conv_Cons)
  then show ?thesis
    by (simp add: invoked_at_later)
qed

lemma process_message_first:
  assumes "button_callbacks r \<noteq> []"
  shows "invoked_at 0 (trace (snd (process_message m r))) = invoked_at 0 (trace r) @ [m]"
proof -
  from process_message_trace [of r m]
  obtain k where tr: "trace (snd (process_message m r))
        = trace r @ (case loopback_port r of None \<Rightarrow> [] | Some forwarded \<Rightarrow> [Forwarded m])
            @ map (\<lambda>j. Invoked j m) [0..<k]"
    and ok: "fst (process_message m r) = Inr () \<longrightarrow> k = length (button_callbacks r)"
    and bad: "fst (process_message m r) \<noteq> Inr () \<longrightarrow> 0 < k"
    by blast
  have "0 < k"
    using ok bad assms by (cases "fst (process_message m r) = Inr ()") simp_all
  then show ?thesis
    unfolding tr by (simp add: invoked_at_append invoked_at_first split: option.splits)
qed

lemma handle_input_first:
  "running r \<Longrightarrow> button_callbacks r \<noteq> []
   \<Longrightarrow> invoked_at 0 (trace (handle_input msgs r)) = invoked_at 0 (trace r) @ msgs"
proof (induction msgs arbitrary: r)
  case Nil
  then show ?case by simp
next
  case (Cons m ms)
  obtain res r' where pm: "process_message m r = (res, r')"
    by (cases "process_message m r")
  have fr: "running r'" "button_callbacks r' \<noteq> []"
    using process_message_frame [of m r] pm Cons.prems by simp_all
  have first: "invoked_at 0 (trace r') = invoked_at 0 (trace r) @ [m]"
    using process_message_first [OF Cons.prems(2), of m] pm by simp
  show ?case
  proof (cases res)
    case (Inl e)
    let ?r2 = "r'\<lparr>trace := trace r' @ [Logged e]\<rparr>"
    have "handle_input (m # ms) r = handle_input ms ?r2"
      using pm Inl Cons.prems by (simp add: handle_input_Cons del: handle_input.simps)
    moreover have "running ?r2" "button_callbacks ?r2 \<noteq> []"
      using fr by simp_all
    ultimately show ?thesis
      using Cons.IH [of ?r2] first
      by (simp add: invoked_at_append del: handle_input.simps)
  next
    case (Inr u)
    have "handle_input (m # ms) r = handle_input ms r'"
      using pm Inr Cons.prems by (simp add: handle_input_Cons del: handle_input.simps)
    then show ?thesis
      using Cons.IH [of r'] fr first by (simp del: handle_input.simps)
  qed
qed

lemma run_callbacks_exact:
  "trace (snd (run_callbacks i cbs m r))
     = trace r @ map (\<lambda>j. Invoked j m) [i..<i + invoked_count cbs m (world r)]
   \<and> world (snd (run_callbacks i cbs m r))
       = fold (\<lambda>cb w. snd (cb m w)) (take (invoked_count cbs m (world r)) cbs) (world r)
   \<and> fst (run_callbacks i cbs m r)
       = (case first_error cbs m (world r) of None \<Rightarrow> Inr () | Some e \<Rightarrow> Inl e)"
proof (induction cbs arbitrary: i r)
  case Nil
  show ?case by simp
next
  case (Cons cb cbs)
  let ?r1 = "r\<lparr>trace := trace r @ [Invoked i m]\<rparr>"
  obtain res w where cb: "cb m (world r) = (res, w)"
    by (cases "cb m (world r)")
  show ?case
  proof (cases res)
    case (Inl e)
    then show ?thesis
      using cb by simp
  next
    case (Inr u)
    let ?r2 = "?r1\<lparr>world := w\<rparr>"
    have step: "run_callbacks i (cb # cbs) m r = run_callbacks (Suc i) cbs m ?r2"
      using cb Inr by simp
    have cnt: "invoked_count (cb # cbs) m (world r) = Suc (invoked_count cbs m w)"
      and err: "first_error (cb # cbs) m (world r) = first_error cbs m w"
      using cb Inr by simp_all
    have upt: "[i..<Suc (i + k)] = i # [Suc i..<Suc (i + k)]" for k
      by (simp add: upt_conv_Cons)
    show ?thesis
      unfolding step cnt err
      using Cons.IH [of "Suc i" ?r2] cb
      by (simp add: upt del: upt_Suc)
  qed
qed

lemma invoked_count_le: "invoked_count cbs m w \<le> length cbs"
  by (induction cbs arbitrary: w) (auto split: prod.splits sum.splits)

lemma invoked_count_all:
  "first_error cbs m w = None \<Longrightarrow> invoked_count cbs m w = length cbs"
  by (induction cbs arbitrary: w) (auto split: prod.splits sum.splits)

lemma invoked_count_raise:
  "first_error cbs m w = Some e \<Longrightarrow> 0 < invoked_count cbs m w"
  by (cases cbs) (auto split: prod.splits sum.splits)

lemma invoked_at_range:
  "invoked_at i (map (\<lambda>j. Invoked j m) [a..<a + k]) = (if a \<le> i \<and> i < a + k then [m] else [])"
proof (induction k)
  case 0
  show ?case by simp
next
  case (Suc k)
  then show ?case
    by (auto simp: invoked_at_append)
qed

lemma process_message_exact:
  "trace (snd (process_message m r))
     = trace r @ (case loopback_port r of None \<Rightarrow> [] | Some forwarded \<Rightarrow> [Forwarded m])
         @ map (\<lambda>j. Invoked j m) [0..<invoked_count (button_callbacks r) m (world r)]
   \<and> world (snd (process_message m r))
       = fold (\<lambda>cb w. snd (cb m w))
           (take (invoked_count (button_callbacks r) m (world r)) (button_callbacks r)) (world r)
   \<and> fst (process_message m r)
       = (case first_error (button_callbacks r) m (world r) of
            None \<Rightarrow> Inr () | Some e \<Rightarrow> Inl e)"
proof (cases "loopback_port r")
  case None
  with run_callbacks_exact [of 0 "button_callbacks r" m r] show ?thesis
    by (simp add: process_message_def)
next
  case (Some forwarded)
  let ?r1 = "r\<lparr>loopback_port := Some (forwarded @ [m]), trace := trace r @ [Forwarded m]\<rparr>"
  from run_callbacks_exact [of 0 "button_callbacks ?r1" m ?r1] Some show ?thesis
    by (simp add: process_message_def)
qed

lemma process_message_position:
  "invoked_at i (trace (snd (process_message m r)))
     = invoked_at i (trace r)
       @ (if i < invoked_count (button_callbacks r) m (world r) then [m] else [])"
proof -
  have "invoked_at i (case loopback_port r of None \<Rightarrow> [] | Some forwarded \<Rightarrow> [Forwarded m]) = []"
    by (simp split: option.splits)
  moreover have "invoked_at i (map (\<lambda>j. Invoked j m)
        [0..<0 + invoked_count (button_callbacks r) m (world r)])
      = (if i < invoked_count (button_callbacks r) m (world r) then [m] else [])"
    by (subst invoked_at_range) simp
  ultimately show ?thesis
    using process_message_exact [of m r] by (simp add: invoked_at_append)
qed

text \<open>
  Claim C7, as stated, fails: with the raising observer registered first, the observer
  registered after it is not invoked for a message on which the first one raises. Of
  the three messages delivered it sees one.
\<close>

theorem reader_forwards_then_dispatches_counterexample:
  "button_callbacks example_reader_raising_first = [failing_callback, counting_callback]
   \<and> running example_reader_raising_first
   \<and> process_message (press 0) example_reader_raising_first =
       (Inl KeyError,
        \<lparr>running = True, loopback_port = Some [press 0],
         button_callbacks = [failing_callback, counting_callback], world = 0,
         trace = [Forwarded (press 0), Invoked 0 (press 0)]\<rparr>)
   \<and> invoked_at 1 (trace (snd (process_message (press 0) example_reader_raising_first))) = []
   \<and> invoked_at 1
        (trace (handle_input [press 0, release 0, press 1] example_reader_raising_first))
       = [release 0]"
proof -
  let ?cbs = "[failing_callback, counting_callback]"
  let ?r0 = "\<lparr>running = True, loopback_port = Some [], button_callbacks = ?cbs,
              world = 0 :: nat, trace = []\<rparr>"
  let ?r1 = "\<lparr>running = True, loopback_port = Some [press 0], button_callbacks = ?cbs,
              world = 0 :: nat, trace = [Forwarded (press 0), Invoked 0 (press 0)]\<rparr>"
  let ?r2 = "?r1\<lparr>trace := trace ?r1 @ [Logged KeyError]\<rparr>"
  let ?r3 = "\<lparr>running = True, loopback_port = Some [press 0, release 0],
              button_callbacks = ?cbs, world = 11 :: nat,
              trace = [Forwarded (press 0), Invoked 0 (press 0), Logged KeyError,
                       Forwarded (release 0), Invoked 0 (release 0), Invoked 1 (release 0)]\<rparr>"
  let ?r4 = "\<lparr>running = True, loopback_port = Some [press 0, release 0, press 1],
              button_callbacks = ?cbs, world = 11 :: nat,
              trace = [Forwarded (press 0), Invoked 0 (press 0), Logged KeyError,
                       Forwarded (release 0), Invoked 0 (release 0), Invoked 1 (release 0),
                       Forwarded (press 1), Invoked 0 (press 1)]\<rparr>"
  let ?r5 = "?r4\<lparr>trace := trace ?r4 @ [Logged KeyError]\<rparr>"
  have r0: "example_reader_raising_first = ?r0"
    by (simp add: example_reader_raising_first_def add_button_callback_def new_reader_def)
  have pm1: "process_message (press 0) ?r0 = (Inl KeyError, ?r1)"
    by (simp add: process_message_def counting_callback_def failing_callback_def press_def)
  have pm2: "process_message (release 0) ?r2 = (Inr (), ?r3)"
    by (simp add: process_message_def counting_callback_def failing_callback_def release_def)
  have pm3: "process_message (press 1) ?r3 = (Inl KeyError, ?r4)"
    by (simp add: process_message_def counting_callback_def failing_callback_def press_def)
  have "handle_input [press 0, release 0, press 1] ?r0 = handle_input [release 0, press 1] ?r2"
    using handle_input_Cons [of ?r0 "press 0" "[release 0, press 1]"] pm1
    by (simp del: handle_input.simps)
  also have "\<dots> = handle_input [press 1] ?r3"
    using handle_input_Cons [of ?r2 "release 0" "[press 1]"] pm2
    by (simp del: handle_input.simps)
  also have "\<dots> = handle_input [] ?r5"
    using handle_input_Cons [of ?r3 "press 1" "[]"] pm3
    by (simp del: handle_input.simps)
  also have "\<dots> = ?r5"
    by (rule handle_input_Nil)
  finally have all: "handle_input [press 0, release 0, press 1] ?r0 = ?r5" .
  show ?thesis
    unfolding r0 all pm1 by (simp del: handle_input.simps)
qed

text \<open>
  Claim C7, amended. Processing one inbound message appends to the trace first the
  forwarding of the unmodified message to the loopback port (when one is configured)
  and then the invocations of the callbacks at positions 0, 1, ... in registration order
  (\<open>add_button_callback\<close> appends), up to and including the first callback that
  raises: all of them when none raises, and none of those registered after a raising
  one. The world is what the invoked callbacks made of it, in that order, and the
  message's outcome is the first exception raised, if any. While the reader is
  running, that exception is logged and the loop goes on with the next message:
  every delivered message is forwarded, and the first registered callback is invoked
  for every one of them.
\<close>

theorem reader_forwards_then_dispatches:
  "trace (snd (process_message m r))
     = trace r @ (case loopback_port r of None \<Rightarrow> [] | Some forwarded \<Rightarrow> [Forwarded m])
         @ map (\<lambda>j. Invoked j m) [0..<invoked_count (button_callbacks r) m (world r)]
   \<and> world (snd (process_message m r))
       = fold (\<lambda>cb w. snd (cb m w))
           (take (invoked_count (button_callbacks r) m (world r)) (button_callbacks r)) (world r)
   \<and> fst (process_message m r)
       = (case first_error (button_callbacks r) m (world r) of
            None \<Rightarrow> Inr () | Some e \<Rightarrow> Inl e)
   \<and> invoked_at i (trace (snd (process_message m r)))
       = invoked_at i (trace r)
         @ (if i < invoked_count (button_callbacks r) m (world r) then [m] else [])
   \<and> invoked_count (button_callbacks r) m (world r) \<le> length (button_callbacks r)
   \<and> (first_error (button_callbacks r) m (world r) = None \<longrightarrow>
        invoked_count (button_callbacks r) m (world r) = length (button_callbacks r))
   \<and> (first_error (button_callbacks r) m (world r) = Some e \<longrightarrow>
        0 < invoked_count (button_callbacks r) m (world r))
   \<and> loopback_port (snd (process_message m r))
       = map_option (\<lambda>forwarded. forwarded @ [m]) (loopback_port r)
   \<and> button_callbacks (add_button_callback cb r) = button_callbacks r @ [cb]
   \<and> handle_input [] r = r
   \<and> (running r \<longrightarrow>
        handle_input (m # ms) r =
          (case process_message m r of
             (Inl e, r') \<Rightarrow> handle_input ms (r'\<lparr>trace := trace r' @ [Logged e]\<rparr>)
           | (Inr u, r') \<Rightarrow> handle_input ms r')
      \<and> loopback_port (handle_input msgs r)
          = map_option (\<lambda>forwarded. forwarded @ msgs) (loopback_port r)
      \<and> (button_callbacks r \<noteq> [] \<longrightarrow>
            invoked_at 0 (trace (handle_input msgs r)) = invoked_at 0 (trace r) @ msgs))"
proof (intro conjI impI)
  show "trace (snd (process_message m r))
     = trace r @ (case loopback_port r of None \<Rightarrow> [] | Some forwarded \<Rightarrow> [Forwarded m])
         @ map (\<lambda>j. Invoked j m) [0..<invoked_count (button_callbacks r) m (world r)]"
    and "world (snd (process_message m r))
       = fold (\<lambda>cb w. snd (cb m w))
           (take (invoked_count (button_callbacks r) m (world r)) (button_callbacks r)) (world r)"
    and "fst (process_message m r)
       = (case first_error (button_callbacks r) m (world r) of
            None \<Rightarrow> Inr () | Some e \<Rightarrow> Inl e)"
    using process_message_exact [of m r] by blast+
  show "invoked_at i (trace (snd (process_message m r)))
       = invoked_at i (trace r)
         @ (if i < invoked_count (button_callbacks r) m (world r) then [m] else [])"
    by (rule process_message_position)
  show "invoked_count (button_callbacks r) m (world r) \<le> length (button_callbacks r)"
    by (rule invoked_count_le)
  show "loopback_port (snd (process_message m r))
       = map_option (\<lambda>forwarded. forwarded @ [m]) (loopback_port r)"
    by (simp add: process_message_frame)
  show "button_callbacks (add_button_callback cb r) = button_callbacks r @ [cb]"
    by (simp add: add_button_callback_def)
  show "handle_input [] r = r"
    by (rule handle_input_Nil)
next
  assume "first_error (button_callbacks r) m (world r) = None"
  then show "invoked_count (button_callbacks r) m (world r) = length (button_callbacks r)"
    by (rule invoked_count_all)
next
  assume "first_error (button_callbacks r) m (world r) = Some e"
  then show "0 < invoked_count (button_callbacks r) m (world r)"
    by (rule invoked_count_raise)
next
  assume "running r"
  then show "handle_input (m # ms) r =
          (case process_message m r of
             (Inl e, r') \<Rightarrow> handle_input ms (r'\<lparr>trace := trace r' @ [Logged e]\<rparr>)
           | (Inr u, r') \<Rightarrow> handle_input ms r')"
    by (rule handle_input_Cons)
next
  assume "running r"
  then show "loopback_port (handle_input msgs r)
          = map_option (\<lambda>forwarded. forwarded @ msgs) (loopback_port r)"
    by (simp add: handle_input_frame del: handle_input.simps)
next
  assume "running r" and "button_callbacks r \<noteq> []"
  then show "invoked_at 0 (trace (handle_input msgs r)) = invoked_at 0 (trace r) @ msgs"
    by (rule handle_input_first)
qed

theorem reader_forwards_then_dispatches_witness:
  "running example_reader
   \<and> button_callbacks example_reader = [counting_callback, failing_callback]
   \<and> button_callbacks example_reader \<noteq> []
   \<and> first_error (button_callbacks example_reader) (press 0) (world example_reader)
       = Some KeyError
   \<and> first_error (button_callbacks example_reader) (release 0) (world example_reader) = None
   \<and> invoked_count (button_callbacks example_reader) (release 0) (world example_reader) = 2
   \<and> trace (snd (process_message (release 0) example_reader))
       = [Forwarded (release 0), Invoked 0 (release 0), Invoked 1 (release 0)]
   \<and> fst (process_message (press 0) example_reader) = Inl KeyError
   \<and> handle_input [press 0, release 0] example_reader =
       \<lparr>running = True,
        loopback_port = Some [press 0, release 0],
        button_callbacks = [counting_callback, failing_callback],
        world = 12,
        trace = [Forwarded (press 0), Invoked 0 (press 0), Invoked 1 (press 0), Logged KeyError,
                 Forwarded (release 0), Invoked 0 (release 0), Invoked 1 (release 0)]\<rparr>"
proof -
  let ?cbs = "[counting_callback, failing_callback]"
  let ?r0 = "\<lparr>running = True, loopback_port = Some [], button_callbacks = ?cbs,
              world = 0 :: nat, trace = []\<rparr>"
  let ?r1 = "\<lparr>running = True, loopback_port = Some [press 0], button_callbacks = ?cbs,
              world = 1 :: nat,
              trace = [Forwarded (press 0), Invoked 0 (press 0), Invoked 1 (press 0)]\<rparr>"
  let ?r2 = "?r1\<lparr>trace := trace ?r1 @ [Logged KeyError]\<rparr>"
  let ?r3 = "\<lparr>running = True, loopback_port = Some [press 0, release 0],
              button_callbacks = ?cbs, world = 12 :: nat,
              trace = [Forwarded (press 0), Invoked 0 (press 0), Invoked 1 (press 0),
                       Logged KeyError,
                       Forwarded (release 0), Invoked 0 (release 0), Invoked 1 (release 0)]\<rparr>"
  have r0: "example_reader = ?r0"
    by (simp add: example_reader_def add_button_callback_def new_reader_def)
  have e1: "first_error ?cbs (press 0) 0 = Some KeyError"
    and e2: "first_error ?cbs (release 0) 0 = None"
    by (simp_all add: counting_callback_def failing_callback_def press_def release_def)
  note at_release = reader_forwards_then_dispatches [where r = ?r0 and m = "release 0"]
  note at_press = reader_forwards_then_dispatches
    [where r = ?r0 and m = "press 0" and ms = "[release 0]" and msgs = "[]"]
  have cnt: "invoked_count ?cbs (release 0) 0 = 2"
    using at_release e2 by (simp del: handle_input.simps)
  have tr: "trace (snd (process_message (release 0) ?r0))
       = [Forwarded (release 0), Invoked 0 (release 0), Invoked 1 (release 0)]"
    using at_release cnt by (simp add: numeral_2_eq_2 del: handle_input.simps)
  have f1: "fst (process_message (press 0) ?r0) = Inl KeyError"
    using at_press e1 by (simp del: handle_input.simps)
  have pm1: "process_message (press 0) ?r0 = (Inl KeyError, ?r1)"
    by (simp add: process_message_def counting_callback_def failing_callback_def press_def)
  have pm2: "process_message (release 0) ?r2 = (Inr (), ?r3)"
    by (simp add: process_message_def counting_callback_def failing_callback_def release_def)
  have loop1: "running ?r0 \<longrightarrow>
      handle_input [press 0, release 0] ?r0 =
        (case process_message (press 0) ?r0 of
           (Inl e, r') \<Rightarrow> handle_input [release 0] (r'\<lparr>trace := trace r' @ [Logged e]\<rparr>)
         | (Inr u, r') \<Rightarrow> handle_input [release 0] r')"
    using at_press [THEN conjunct2, THEN conjunct2, THEN conjunct2, THEN conjunct2, THEN conjunct2, THEN conjunct2, THEN conjunct2, THEN conjunct2, THEN conjunct2, THEN conjunct2] by blast
  have loop2: "running ?r2 \<longrightarrow>
      handle_input [release 0] ?r2 =
        (case process_message (release 0) ?r2 of
           (Inl e, r') \<Rightarrow> handle_input [] (r'\<lparr>trace := trace r' @ [Logged e]\<rparr>)
         | (Inr u, r') \<Rightarrow> handle_input [] r')"
    using reader_forwards_then_dispatches [where r = ?r2 and m = "release 0" and ms = "[]" and msgs = "[]", THEN conjunct2, THEN conjunct2, THEN conjunct2, THEN conjunct2, THEN conjunct2, THEN conjunct2, THEN conjunct2, THEN conjunct2, THEN conjunct2, THEN conjunct2]
    by blast
  have "handle_input [press 0, release 0] ?r0 = handle_input [release 0] ?r2"
    using loop1 pm1 by (simp del: handle_input.simps)
  also have "\<dots> = handle_input [] ?r3"
    using loop2 pm2 by (simp del: handle_input.simps)
  also have "\<dots> = ?r3"
    by (rule reader_forwards_then_dispatches [where r = ?r3, THEN conjunct2, THEN conjunct2, THEN conjunct2,
        THEN conjunct2, THEN conjunct2, THEN conjunct2, THEN conjunct2, THEN conjunct2,
        THEN conjunct2, THEN conjunct1])
  finally show ?thesis
    using e1 e2 cnt tr f1 by (simp add: r0 del: handle_input.simps)
qed

end
